theory Spec2Isabelle
  imports Complex_Main "HOL-Library.Word" "HOL-Library.Multiset"
begin

section \<open>JavaScript strings and values\<close>

text \<open>
  A JavaScript string is a sequence of UTF-16 code units; \<open>s.length\<close> is the number of
  code units and \<open>===\<close> on two strings compares the sequences.  \<open>ascii\<close> embeds an
  Isabelle string literal.
\<close>

type_synonym jschar = "16 word"
type_synonym jsstring = "jschar list"

definition ascii :: "string \<Rightarrow> jsstring" where
  "ascii s = map of_char s"

text \<open>
  The values that can sit in the word-count objects of \<open>findAddedWords\<close> and
  \<open>findRemovedWords\<close>, or be read from them: a number (the counts are integers),
  \<open>NaN\<close>, a string, \<open>undefined\<close>, a native function (of the given name) and the object
  \<open>Object.prototype\<close>.  The last two are there because \<open>oldWordCount\<close> and
  \<open>newWordCount\<close> are created by the literal \<open>{}\<close>: a property the object does not own
  is looked up in \<open>Object.prototype\<close>.
\<close>

datatype jsval = Undefined | Num int | NaN | Str jsstring | Fun jsstring | ObjectPrototype

text \<open>What \<open>Function.prototype.toString\<close> returns for a native function.\<close>

definition native_src :: "jsstring \<Rightarrow> jsstring" where
  "native_src name = ascii ''function '' @ name @ ascii ''() { [native code] }''"

text \<open>
  The properties of \<open>Object.prototype\<close>: \<open>constructor\<close> is the function \<open>Object\<close>, the
  methods are native functions named as the property, and \<open>__proto__\<close> is an accessor
  whose getter returns the prototype of the receiver (for an object made by \<open>{}\<close> that is
  \<open>Object.prototype\<close> itself).
\<close>

definition object_prototype_methods :: "jsstring list" where
  "object_prototype_methods = map ascii
     [''hasOwnProperty'', ''isPrototypeOf'', ''propertyIsEnumerable'', ''toLocaleString'',
      ''toString'', ''valueOf'', ''__defineGetter__'', ''__defineSetter__'',
      ''__lookupGetter__'', ''__lookupSetter__'']"

definition object_prototype :: "jsstring \<Rightarrow> jsval" where
  "object_prototype p =
     (if p = ascii ''constructor'' then Fun (ascii ''Object'')
      else if p \<in> set object_prototype_methods then Fun p
      else if p = ascii ''__proto__'' then ObjectPrototype
      else Undefined)"

text \<open>
  An object made by \<open>{}\<close> is the map of its own properties.  \<open>obj[p]\<close> reads the own
  property or else the inherited one.  \<open>obj[p] = v\<close> creates or updates an own property,
  except for \<open>__proto__\<close>, where it calls the setter of \<open>Object.prototype\<close>: the setter
  ignores a value that is neither an object nor \<open>null\<close>, and the values assigned here
  are results of \<open>+\<close>, so numbers or strings.
\<close>

type_synonym jsobject = "jsstring \<rightharpoonup> jsval"

definition get_prop :: "jsobject \<Rightarrow> jsstring \<Rightarrow> jsval" where
  "get_prop obj p = (case obj p of Some v \<Rightarrow> v | None \<Rightarrow> object_prototype p)"

definition set_prop :: "jsobject \<Rightarrow> jsstring \<Rightarrow> jsval \<Rightarrow> jsobject" where
  "set_prop obj p v = (if p = ascii ''__proto__'' then obj else obj(p \<mapsto> v))"

text \<open>\<open>ToBoolean\<close>, and \<open>a || b\<close>.\<close>

fun truthy :: "jsval \<Rightarrow> bool" where
  "truthy Undefined = False"
| "truthy (Num n) = (n \<noteq> 0)"
| "truthy NaN = False"
| "truthy (Str s) = (s \<noteq> [])"
| "truthy (Fun f) = True"
| "truthy ObjectPrototype = True"

definition js_or :: "jsval \<Rightarrow> jsval \<Rightarrow> jsval" where
  "js_or a b = (if truthy a then a else b)"

text \<open>
  \<open>ToPrimitive\<close>: \<open>valueOf\<close> of a function or of \<open>Object.prototype\<close> returns the object
  itself, so \<open>toString\<close> decides.
\<close>

fun to_primitive :: "jsval \<Rightarrow> jsval" where
  "to_primitive (Fun f) = Str (native_src f)"
| "to_primitive ObjectPrototype = Str (ascii ''[object Object]'')"
| "to_primitive v = v"

text \<open>
  \<open>ToNumber\<close> of a primitive, \<open>None\<close> for \<open>NaN\<close>.  The strings that reach it are the
  contents of a count object: the source of a native function or \<open>[object Object]\<close>,
  followed by 1s, none of which is a numeric literal.
\<close>

fun to_number :: "jsval \<Rightarrow> int option" where
  "to_number (Num n) = Some n"
| "to_number v = None"

text \<open>\<open>v + 1\<close>: concatenation when \<open>v\<close> is a string after \<open>ToPrimitive\<close>, addition otherwise.\<close>

definition js_add_one :: "jsval \<Rightarrow> jsval" where
  "js_add_one v =
     (case to_primitive v of
        Str s \<Rightarrow> Str (s @ ascii ''1'')
      | p \<Rightarrow> (case to_number p of Some n \<Rightarrow> Num (n + 1) | None \<Rightarrow> NaN))"

text \<open>The order of \<open><\<close> on strings: lexicographic on code units.\<close>

fun str_less :: "jsstring \<Rightarrow> jsstring \<Rightarrow> bool" where
  "str_less s [] = False"
| "str_less [] (d # t) = True"
| "str_less (c # s) (d # t) = (c < d \<or> (c = d \<and> str_less s t))"

text \<open>\<open>a > b\<close>: on strings when both are strings after \<open>ToPrimitive\<close>, on numbers otherwise,
  and false when either number is \<open>NaN\<close>.\<close>

definition js_gt :: "jsval \<Rightarrow> jsval \<Rightarrow> bool" where
  "js_gt a b =
     (case (to_primitive a, to_primitive b) of
        (Str s, Str t) \<Rightarrow> str_less t s
      | (p, q) \<Rightarrow> (case (to_number p, to_number q) of
                     (Some x, Some y) \<Rightarrow> y < x
                   | _ \<Rightarrow> False))"

text \<open>\<open>a - b\<close>, \<open>None\<close> for \<open>NaN\<close>.\<close>

definition js_sub :: "jsval \<Rightarrow> jsval \<Rightarrow> int option" where
  "js_sub a b =
     (case (to_number (to_primitive a), to_number (to_primitive b)) of
        (Some x, Some y) \<Rightarrow> Some (x - y)
      | _ \<Rightarrow> None)"

section \<open>The word differ\<close>

text \<open>
  \<open>words.forEach(word => { count[word] = (count[word] || 0) + 1; })\<close> on a fresh \<open>{}\<close>.
\<close>

definition count_step :: "jsobject \<Rightarrow> jsstring \<Rightarrow> jsobject" where
  "count_step cnt word = set_prop cnt word (js_add_one (js_or (get_prop cnt word) (Num 0)))"

definition count_words :: "jsstring list \<Rightarrow> jsobject" where
  "count_words ws = foldl count_step Map.empty ws"

text \<open>
  \<open>for (let i = 0; i < d; i++) out.push(word)\<close>: the test \<open>0 < NaN\<close> is false.
\<close>

definition push_times :: "int option \<Rightarrow> jsstring \<Rightarrow> jsstring list \<Rightarrow> jsstring list" where
  "push_times d word out =
     (case d of Some k \<Rightarrow> out @ replicate (nat k) word | None \<Rightarrow> out)"

text \<open>
  The body of the last \<open>forEach\<close> of \<open>findAddedWords\<close>; the state is the array
  \<open>addedWords\<close> and the set \<open>processedWords\<close>.
\<close>

definition added_step ::
  "jsobject \<Rightarrow> jsobject \<Rightarrow> jsstring list \<times> jsstring set \<Rightarrow> jsstring
     \<Rightarrow> jsstring list \<times> jsstring set" where
  "added_step oldWordCount newWordCount st word =
     (case st of (addedWords, processedWords) \<Rightarrow>
        if word \<in> processedWords then (addedWords, processedWords)
        else
          let oldCount = js_or (get_prop oldWordCount word) (Num 0);
              newCount = js_or (get_prop newWordCount word) (Num 0)
          in ((if js_gt newCount oldCount
               then push_times (js_sub newCount oldCount) word addedWords
               else addedWords),
              insert word processedWords))"

definition findAddedWords :: "jsstring list \<Rightarrow> jsstring list \<Rightarrow> jsstring list" where
  "findAddedWords oldWords newWords =
     fst (foldl (added_step (count_words oldWords) (count_words newWords)) ([], {}) newWords)"

text \<open>The same for \<open>findRemovedWords\<close>, which walks \<open>oldWords\<close>.\<close>

definition removed_step ::
  "jsobject \<Rightarrow> jsobject \<Rightarrow> jsstring list \<times> jsstring set \<Rightarrow> jsstring
     \<Rightarrow> jsstring list \<times> jsstring set" where
  "removed_step oldWordCount newWordCount st word =
     (case st of (removedWords, processedWords) \<Rightarrow>
        if word \<in> processedWords then (removedWords, processedWords)
        else
          let oldCount = js_or (get_prop oldWordCount word) (Num 0);
              newCount = js_or (get_prop newWordCount word) (Num 0)
          in ((if js_gt oldCount newCount
               then push_times (js_sub oldCount newCount) word removedWords
               else removedWords),
              insert word processedWords))"

definition findRemovedWords :: "jsstring list \<Rightarrow> jsstring list \<Rightarrow> jsstring list" where
  "findRemovedWords oldWords newWords =
     fst (foldl (removed_step (count_words oldWords) (count_words newWords)) ([], {}) oldWords)"


section \<open>Request values and the tokenizer\<close>

text \<open>
  The \<open>text\<close> field of a request body parsed by \<open>express.json()\<close>, and the values read
  back from \<open>versions.json\<close>, are JSON values; a field that is absent reads as
  \<open>undefined\<close>, here \<open>None\<close>.  Numbers are the finite ones (\<open>-0\<close> and \<open>0\<close> are not
  told apart, as \<open>===\<close> and \<open>||\<close> do not).
\<close>

datatype json = JNull | JBool bool | JNum rat | JStr jsstring | JArr "json list"
  | JObj "(jsstring \<times> json) list"

datatype jstype = TUndefined | TObject | TBoolean | TNumber | TString

fun typeof :: "json option \<Rightarrow> jstype" where
  "typeof None = TUndefined"
| "typeof (Some JNull) = TObject"
| "typeof (Some (JBool b)) = TBoolean"
| "typeof (Some (JNum x)) = TNumber"
| "typeof (Some (JStr s)) = TString"
| "typeof (Some (JArr xs)) = TObject"
| "typeof (Some (JObj ps)) = TObject"

fun json_truthy :: "json option \<Rightarrow> bool" where
  "json_truthy None = False"
| "json_truthy (Some JNull) = False"
| "json_truthy (Some (JBool b)) = b"
| "json_truthy (Some (JNum x)) = (x \<noteq> 0)"
| "json_truthy (Some (JStr s)) = (s \<noteq> [])"
| "json_truthy (Some (JArr xs)) = True"
| "json_truthy (Some (JObj ps)) = True"

definition json_or :: "json option \<Rightarrow> json option \<Rightarrow> json option" where
  "json_or a b = (if json_truthy a then a else b)"

text \<open>
  \<open>a === b\<close> where \<open>a\<close> comes from the request and \<open>b\<close> from the file: two arrays or
  objects are never the same object.
\<close>

fun strict_eq :: "json option \<Rightarrow> json option \<Rightarrow> bool" where
  "strict_eq None None = True"
| "strict_eq (Some JNull) (Some JNull) = True"
| "strict_eq (Some (JBool a)) (Some (JBool b)) = (a = b)"
| "strict_eq (Some (JNum x)) (Some (JNum y)) = (x = y)"
| "strict_eq (Some (JStr s)) (Some (JStr t)) = (s = t)"
| "strict_eq a b = False"

text \<open>
  The code units matched by \<open>\s\<close> in a regular expression; \<open>trim\<close> strips the same ones
  (white space and line terminators).
\<close>

definition is_ws :: "jschar \<Rightarrow> bool" where
  "is_ws c = (c \<in> {0x09, 0x0A, 0x0B, 0x0C, 0x0D, 0x20, 0xA0, 0x1680, 0x2028, 0x2029,
                    0x202F, 0x205F, 0x3000, 0xFEFF} \<or> (0x2000 \<le> c \<and> c \<le> 0x200A))"

definition trim :: "jsstring \<Rightarrow> jsstring" where
  "trim s = rev (dropWhile is_ws (rev (dropWhile is_ws s)))"

text \<open>
  \<open>s.split(/\s+/)\<close>: the pieces between the maximal runs of white space, the empty piece
  before a leading run and after a trailing one included; the empty string gives one
  empty piece.  The first argument is the piece being read.
\<close>

function split_from :: "jsstring \<Rightarrow> jsstring \<Rightarrow> jsstring list" where
  "split_from piece [] = [piece]"
| "split_from piece (c # cs) =
     (if is_ws c then piece # split_from [] (dropWhile is_ws cs)
      else split_from (piece @ [c]) cs)"
  by pat_completeness auto
termination
  by (relation "measure (\<lambda>(piece, s). length s)")
     (auto simp add: length_dropWhile_le less_Suc_eq_le)

definition split_ws :: "jsstring \<Rightarrow> jsstring list" where
  "split_ws s = split_from [] s"

definition extractWords :: "json option \<Rightarrow> jsstring list" where
  "extractWords text =
     (if \<not> json_truthy text \<or> typeof text \<noteq> TString then []
      else case text of
             Some (JStr s) \<Rightarrow> filter (\<lambda>word. length word > 0) (split_ws (trim s))
           | _ \<Rightarrow> [])"

section \<open>Version entries\<close>

datatype error = TypeError | IOError

record version =
  version_id :: jsstring
  timestamp :: jsstring
  addedWords :: "jsstring list"
  removedWords :: "jsstring list"
  oldLength :: "json option"
  newLength :: "json option"

text \<open>
  \<open>v.length\<close>: a \<open>TypeError\<close> on \<open>undefined\<close> and \<open>null\<close>, the number of code units of a
  string, the number of elements of an array, the own property of an object, and
  \<open>undefined\<close> on a boolean or a number.
\<close>

fun js_length :: "json option \<Rightarrow> error + json option" where
  "js_length None = Inl TypeError"
| "js_length (Some JNull) = Inl TypeError"
| "js_length (Some (JStr s)) = Inr (Some (JNum (of_nat (length s))))"
| "js_length (Some (JArr xs)) = Inr (Some (JNum (of_nat (length xs))))"
| "js_length (Some (JObj ps)) = Inr (map_of ps (ascii ''length''))"
| "js_length (Some (JBool b)) = Inr None"
| "js_length (Some (JNum x)) = Inr None"

text \<open>\<open>s.slice(0, 16)\<close> and \<open>s.replace('T', ' ')\<close>, which replaces the first \<open>T\<close> only.\<close>

definition slice_0_16 :: "jsstring \<Rightarrow> jsstring" where
  "slice_0_16 s = take 16 s"

fun replace_first :: "jschar \<Rightarrow> jschar \<Rightarrow> jsstring \<Rightarrow> jsstring" where
  "replace_first a b [] = []"
| "replace_first a b (c # cs) = (if c = a then b # cs else c # replace_first a b cs)"

text \<open>
  \<open>generateVersionEntry\<close>; \<open>uuid\<close> is what \<open>uuidv4()\<close> returns and \<open>isoString\<close> what
  \<open>new Date().toISOString()\<close> returns at the call.
\<close>

definition generateVersionEntry ::
  "jsstring \<Rightarrow> jsstring \<Rightarrow> json option \<Rightarrow> json option \<Rightarrow> error + version" where
  "generateVersionEntry uuid isoString oldText newText =
     (let oldWords = extractWords oldText;
          newWords = extractWords newText;
          added = findAddedWords oldWords newWords;
          removed = findRemovedWords oldWords newWords;
          stamp = replace_first (of_char CHR ''T'') (of_char CHR '' '') (slice_0_16 isoString)
      in case js_length oldText of
           Inl e \<Rightarrow> Inl e
         | Inr ol \<Rightarrow>
             (case js_length newText of
                Inl e \<Rightarrow> Inl e
              | Inr nl \<Rightarrow>
                  Inr \<lparr>version_id = uuid, timestamp = stamp, addedWords = added,
                       removedWords = removed, oldLength = ol, newLength = nl\<rparr>))"

section \<open>The store and the save-version handler\<close>

text \<open>
  The content of \<open>data/versions.json\<close> and the file system around it: the file may be
  absent, and reading or writing may fail.
\<close>

record data =
  versions :: "version list"
  currentText :: "json option"

record disk =
  contents :: "data option"
  read_error :: bool
  write_error :: bool

definition ensureDataFile :: "disk \<Rightarrow> error + disk" where
  "ensureDataFile d =
     (case contents d of
        Some x \<Rightarrow> Inr d
      | None \<Rightarrow>
          if write_error d then Inl IOError
          else Inr (d\<lparr>contents := Some \<lparr>versions = [], currentText = Some (JStr [])\<rparr>\<rparr>))"

definition readData :: "disk \<Rightarrow> (error + data) \<times> disk" where
  "readData d =
     (case ensureDataFile d of
        Inl e \<Rightarrow> (Inl e, d)
      | Inr d' \<Rightarrow>
          if read_error d' then (Inl IOError, d')
          else (case contents d' of Some x \<Rightarrow> (Inr x, d') | None \<Rightarrow> (Inl IOError, d')))"

definition writeData :: "data \<Rightarrow> disk \<Rightarrow> (error + unit) \<times> disk" where
  "writeData x d =
     (case ensureDataFile d of
        Inl e \<Rightarrow> (Inl e, d)
      | Inr d' \<Rightarrow>
          if write_error d' then (Inl IOError, d')
          else (Inr (), d'\<lparr>contents := Some x\<rparr>))"

datatype reply = Failure jsstring | NoChanges | Saved version

record response =
  status :: nat
  reply :: reply

definition internal_error :: response where
  "internal_error = \<lparr>status = 500, reply = Failure (ascii ''Internal server error'')\<rparr>"

text \<open>
  The handler of \<open>POST /save-version\<close> on the \<open>text\<close> field of the request body.  Every
  exception of the \<open>try\<close> block ends in the \<open>catch\<close>, which answers 500.
\<close>

definition save_version ::
  "jsstring \<Rightarrow> jsstring \<Rightarrow> json option \<Rightarrow> disk \<Rightarrow> response \<times> disk" where
  "save_version uuid isoString text d =
     (if text = None \<or> text = Some JNull
      then (\<lparr>status = 400, reply = Failure (ascii ''Text content is required'')\<rparr>, d)
      else
        case readData d of
          (Inl e, d1) \<Rightarrow> (internal_error, d1)
        | (Inr dat, d1) \<Rightarrow>
            let oldText = json_or (currentText dat) (Some (JStr []))
            in if strict_eq text oldText
               then (\<lparr>status = 200, reply = NoChanges\<rparr>, d1)
               else
                 case generateVersionEntry uuid isoString oldText text of
                   Inl e \<Rightarrow> (internal_error, d1)
                 | Inr versionEntry \<Rightarrow>
                     (case writeData (dat\<lparr>versions := versionEntry # versions dat,
                                         currentText := text\<rparr>) d1 of
                        (Inl e, d2) \<Rightarrow> (internal_error, d2)
                      | (Inr u, d2) \<Rightarrow> (\<lparr>status = 201, reply = Saved versionEntry\<rparr>, d2)))"

section \<open>Specification-level notions\<close>

text \<open>
  The distinct elements of a list in the order of their first appearance.
\<close>

fun first_occurrences :: "'a list \<Rightarrow> 'a list" where
  "first_occurrences [] = []"
| "first_occurrences (x # xs) = x # first_occurrences (filter (\<lambda>y. y \<noteq> x) xs)"

text \<open>
  A word is shadowed when \<open>Object.prototype\<close> has a property of that name, so that a
  count object reads something else than \<open>undefined\<close> for it before the word was counted.
\<close>

definition shadowed :: "jsstring \<Rightarrow> bool" where
  "shadowed w = (object_prototype w \<noteq> Undefined)"

text \<open>What a count object holds for a word after \<open>k\<close> occurrences of it.\<close>

fun stored :: "jsstring \<Rightarrow> nat \<Rightarrow> jsval" where
  "stored w 0 = object_prototype w"
| "stored w (Suc k) =
     (if w = ascii ''__proto__'' then stored w k
      else js_add_one (js_or (stored w k) (Num 0)))"

text \<open>\<open>count[w] || 0\<close> after counting the words of \<open>ws\<close>.\<close>

definition counted :: "jsstring list \<Rightarrow> jsstring \<Rightarrow> jsval" where
  "counted ws w = js_or (get_prop (count_words ws) w) (Num 0)"

text \<open>
  The copies of a word that a pass of the differ emits: as many as it occurs more often in
  \<open>xs\<close> than in \<open>ys\<close>, and none for a shadowed word.
\<close>

definition excess :: "jsstring list \<Rightarrow> jsstring list \<Rightarrow> jsstring \<Rightarrow> jsstring list" where
  "excess xs ys w =
     (if shadowed w then [] else replicate (count_list xs w - count_list ys w) w)"

text \<open>
  The tokenizer as the specification words it: the maximal runs of characters that are
  not white space, in order.  The second argument is the run being read.
\<close>

fun runs_from :: "jsstring \<Rightarrow> jsstring \<Rightarrow> jsstring list" where
  "runs_from run [] = (if run = [] then [] else [run])"
| "runs_from run (c # cs) =
     (if is_ws c then (if run = [] then runs_from [] cs else run # runs_from [] cs)
      else runs_from (run @ [c]) cs)"

definition tokenize_spec :: "jsstring \<Rightarrow> jsstring list" where
  "tokenize_spec s = runs_from [] s"


text \<open>
  The store as the handler reads it: the list of version records and the current
  snapshot, where an absent file stands for the empty store that \<open>ensureDataFile\<close>
  creates, and a snapshot that is missing or falsy reads as the empty string.
\<close>

definition stored_records :: "disk \<Rightarrow> version list" where
  "stored_records d = (case contents d of None \<Rightarrow> [] | Some dat \<Rightarrow> versions dat)"

definition stored_snapshot :: "disk \<Rightarrow> json option" where
  "stored_snapshot d =
     (case contents d of
        None \<Rightarrow> Some (JStr [])
      | Some dat \<Rightarrow> json_or (currentText dat) (Some (JStr [])))"

section \<open>What the count objects hold\<close>

lemma object_prototype_proto: "object_prototype (ascii ''__proto__'') = ObjectPrototype"
  by (simp add: object_prototype_def object_prototype_methods_def ascii_def)

lemma plain_not_proto: "object_prototype w = Undefined \<Longrightarrow> w \<noteq> ascii ''__proto__''"
  using object_prototype_proto by auto

lemma method_not_proto: "object_prototype w = Fun f \<Longrightarrow> w \<noteq> ascii ''__proto__''"
  using object_prototype_proto by auto

lemma object_prototype_cases:
  "object_prototype w = Undefined \<or> (\<exists>f. object_prototype w = Fun f) \<or> w = ascii ''__proto__''"
  by (simp add: object_prototype_def)

lemma shadowed_proto: "shadowed (ascii ''__proto__'')"
  by (simp add: shadowed_def object_prototype_proto)

lemma count_words_snoc: "count_words (ws @ [w]) = count_step (count_words ws) w"
  by (simp add: count_words_def)

lemma get_prop_count_step:
  "get_prop (count_step cnt x) w =
     (if w = x \<and> w \<noteq> ascii ''__proto__'' then js_add_one (js_or (get_prop cnt w) (Num 0))
      else get_prop cnt w)"
  by (simp add: count_step_def set_prop_def get_prop_def)

lemma get_prop_count_words: "get_prop (count_words ws) w = stored w (count_list ws w)"
proof (induction ws rule: rev_induct)
  case Nil
  show ?case by (simp add: count_words_def get_prop_def)
next
  case (snoc x xs)
  then show ?case by (cases "w = x") (auto simp add: count_words_snoc get_prop_count_step)
qed

text \<open>A word that is not shadowed is counted by numbers.\<close>

lemma stored_plain:
  assumes "object_prototype w = Undefined"
  shows "js_or (stored w k) (Num 0) = Num (int k)"
proof (induction k)
  case 0
  show ?case using assms by (simp add: js_or_def)
next
  case (Suc k)
  have "w \<noteq> ascii ''__proto__''" using assms by (rule plain_not_proto)
  then show ?case using Suc by (simp add: js_or_def js_add_one_def)
qed

text \<open>The setter of \<open>__proto__\<close> never stores anything.\<close>

lemma stored_proto: "stored (ascii ''__proto__'') k = ObjectPrototype"
  by (induction k) (simp_all add: object_prototype_proto)

lemma native_src_nonempty: "native_src f \<noteq> []"
  by (simp add: native_src_def ascii_def)

text \<open>
  A word named as a method of \<open>Object.prototype\<close> is counted by a string: the source of
  the method followed by one \<open>1\<close> for each occurrence.
\<close>

lemma stored_method:
  assumes "object_prototype w = Fun f"
  shows "to_primitive (js_or (stored w k) (Num 0)) =
           Str (native_src f @ replicate k (of_char CHR ''1''))"
proof (induction k)
  case 0
  show ?case using assms by (simp add: js_or_def)
next
  case (Suc k)
  have np: "w \<noteq> ascii ''__proto__''" using assms by (rule method_not_proto)
  have "js_or (stored w (Suc k)) (Num 0) = js_add_one (js_or (stored w k) (Num 0))"
    using np Suc by (simp add: js_or_def js_add_one_def native_src_nonempty ascii_def)
  then show ?case using Suc
    by (simp add: js_add_one_def ascii_def replicate_append_same)
qed

lemma str_less_append: "str_less (p @ s) (p @ t) = str_less s t"
  by (induction p) simp_all

lemma str_less_irrefl: "\<not> str_less s s"
  by (induction s) simp_all

lemma str_less_replicate: "str_less (replicate m c) (replicate n c) = (m < n)"
proof (induction m arbitrary: n)
  case 0
  show ?case by (cases n) simp_all
next
  case (Suc m)
  show ?case using Suc by (cases n) simp_all
qed

text \<open>
  The comparison of the two counts is the comparison of the numbers of occurrences, also
  on the strings of a method name, but not for \<open>__proto__\<close>.
\<close>

lemma js_gt_counted:
  "js_gt (counted xs w) (counted ys w) =
     (w \<noteq> ascii ''__proto__'' \<and> count_list ys w < count_list xs w)"
proof -
  consider (plain) "object_prototype w = Undefined" | (meth) f where "object_prototype w = Fun f"
    | (proto) "w = ascii ''__proto__''"
    using object_prototype_cases by blast
  then show ?thesis
  proof cases
    case plain
    then have "w \<noteq> ascii ''__proto__''" by (rule plain_not_proto)
    then show ?thesis using plain
      by (simp add: counted_def get_prop_count_words stored_plain js_gt_def)
  next
    case meth
    then have "w \<noteq> ascii ''__proto__''" by (rule method_not_proto)
    then show ?thesis using meth
      by (simp add: counted_def get_prop_count_words stored_method js_gt_def
          str_less_append str_less_replicate)
  next
    case proto
    then show ?thesis
      by (simp add: counted_def get_prop_count_words stored_proto js_gt_def js_or_def
          str_less_irrefl)
  qed
qed

text \<open>The difference of the two counts is a number only for a word that is not shadowed.\<close>

lemma js_sub_counted:
  "js_sub (counted xs w) (counted ys w) =
     (if shadowed w then None else Some (int (count_list xs w) - int (count_list ys w)))"
proof -
  consider (plain) "object_prototype w = Undefined" | (meth) f where "object_prototype w = Fun f"
    | (proto) "w = ascii ''__proto__''"
    using object_prototype_cases by blast
  then show ?thesis
  proof cases
    case plain
    then show ?thesis
      by (simp add: counted_def get_prop_count_words stored_plain js_sub_def shadowed_def)
  next
    case meth
    then show ?thesis
      by (simp add: counted_def get_prop_count_words stored_method js_sub_def shadowed_def)
  next
    case proto
    then show ?thesis
      by (simp add: counted_def get_prop_count_words stored_proto js_sub_def js_or_def
          shadowed_def object_prototype_proto)
  qed
qed

section \<open>What the two passes of the differ return\<close>

lemma added_step_excess:
  "added_step (count_words old) (count_words new) (out, seen) w =
     (if w \<in> seen then (out, seen) else (out @ excess new old w, insert w seen))"
proof -
  have "(if js_gt (counted new w) (counted old w)
         then push_times (js_sub (counted new w) (counted old w)) w out else out)
        = out @ excess new old w"
    using shadowed_proto
    by (auto simp add: js_gt_counted js_sub_counted push_times_def excess_def nat_diff_distrib')
  then show ?thesis
    unfolding added_step_def Let_def counted_def [symmetric] by simp
qed

lemma removed_step_excess:
  "removed_step (count_words old) (count_words new) (out, seen) w =
     (if w \<in> seen then (out, seen) else (out @ excess old new w, insert w seen))"
proof -
  have "(if js_gt (counted old w) (counted new w)
         then push_times (js_sub (counted old w) (counted new w)) w out else out)
        = out @ excess old new w"
    using shadowed_proto
    by (auto simp add: js_gt_counted js_sub_counted push_times_def excess_def nat_diff_distrib')
  then show ?thesis
    unfolding removed_step_def Let_def counted_def [symmetric] by simp
qed

text \<open>
  A loop that skips the words it has seen and appends \<open>g w\<close> for the others visits the
  first occurrences, in order.
\<close>

lemma foldl_first_occurrences:
  assumes step: "\<And>out seen w. f (out, seen) w =
                  (if w \<in> seen then (out, seen) else (out @ g w, insert w seen))"
  shows "foldl f (out, seen) ws =
           (out @ concat (map g (first_occurrences (filter (\<lambda>w. w \<notin> seen) ws))),
            seen \<union> set ws)"
proof (induction ws arbitrary: out seen)
  case Nil
  show ?case by simp
next
  case (Cons x xs)
  show ?case
  proof (cases "x \<in> seen")
    case True
    then show ?thesis using Cons [of out seen] by (auto simp add: step)
  next
    case False
    have "filter (\<lambda>y. y \<noteq> x) (filter (\<lambda>w. w \<notin> seen) xs) =
            filter (\<lambda>w. w \<notin> insert x seen) xs"
      by (induction xs) auto
    then show ?thesis using False Cons [of "out @ g x" "insert x seen"]
      by (simp add: step)
  qed
qed

lemma findAddedWords_excess:
  "findAddedWords old new = concat (map (excess new old) (first_occurrences new))"
  unfolding findAddedWords_def
  by (subst foldl_first_occurrences [where g = "excess new old"])
     (simp_all add: added_step_excess)

lemma findRemovedWords_excess:
  "findRemovedWords old new = concat (map (excess old new) (first_occurrences old))"
  unfolding findRemovedWords_def
  by (subst foldl_first_occurrences [where g = "excess old new"])
     (simp_all add: removed_step_excess)

lemma set_first_occurrences: "set (first_occurrences xs) = set xs"
proof (induction xs rule: first_occurrences.induct)
  case 1
  show ?case by simp
next
  case (2 x xs)
  then show ?case by auto
qed

lemma distinct_first_occurrences: "distinct (first_occurrences xs)"
proof (induction xs rule: first_occurrences.induct)
  case 1
  show ?case by simp
next
  case (2 x xs)
  then show ?case by (simp add: set_first_occurrences)
qed

lemma excess_same: "excess xs xs w = []"
  by (simp add: excess_def)

lemma findAddedWords_same: "findAddedWords ws ws = []"
  by (simp add: findAddedWords_excess excess_same)

lemma findRemovedWords_same: "findRemovedWords ws ws = []"
  by (simp add: findRemovedWords_excess excess_same)

lemma in_findAddedWords:
  "w \<in> set (findAddedWords old new) \<longleftrightarrow>
     \<not> shadowed w \<and> count_list old w < count_list new w"
proof -
  have "count_list old w < count_list new w \<Longrightarrow> w \<in> set new"
    by (metis count_list_0_iff not_less_zero)
  then show ?thesis
    by (auto simp add: findAddedWords_excess excess_def set_first_occurrences split: if_splits)
qed

lemma in_findRemovedWords:
  "w \<in> set (findRemovedWords old new) \<longleftrightarrow>
     \<not> shadowed w \<and> count_list new w < count_list old w"
proof -
  have "count_list new w < count_list old w \<Longrightarrow> w \<in> set old"
    by (metis count_list_0_iff not_less_zero)
  then show ?thesis
    by (auto simp add: findRemovedWords_excess excess_def set_first_occurrences split: if_splits)
qed

text \<open>The multiplicity examples of the specification.\<close>

lemma multiplicity_examples:
  "findAddedWords [ascii ''a''] [ascii ''a'', ascii ''a''] = [ascii ''a'']
   \<and> findRemovedWords [ascii ''a'', ascii ''a''] [ascii ''a''] = [ascii ''a'']"
  by (simp add: findAddedWords_def findRemovedWords_def count_words_def count_step_def
      set_prop_def get_prop_def object_prototype_def object_prototype_methods_def ascii_def
      js_or_def js_add_one_def added_step_def removed_step_def js_gt_def js_sub_def
      push_times_def)

section \<open>The claims on the differ\<close>

text \<open>
  Claim C4.  For all word sequences \<open>A\<close> and \<open>B\<close>, the added words of the change from \<open>A\<close>
  to \<open>B\<close> are the removed words of the change from \<open>B\<close> to \<open>A\<close>, and the removed words
  of the change from \<open>A\<close> to \<open>B\<close> are the added words of the change from \<open>B\<close> to \<open>A\<close>.
\<close>

theorem differ_symmetry:
  "findAddedWords A B = findRemovedWords B A \<and> findRemovedWords A B = findAddedWords B A"
  by (simp add: findAddedWords_excess findRemovedWords_excess)

text \<open>
  Claim C5.  For every word sequence \<open>A\<close>, the change from \<open>A\<close> to \<open>A\<close> has no added and
  no removed words.
\<close>

theorem differ_self:
  "findAddedWords A A = [] \<and> findRemovedWords A A = []"
  by (simp add: findAddedWords_same findRemovedWords_same)

text \<open>
  Claim C10.  A word is among the added words only if it occurs more often in the new
  sequence than in the old one, and among the removed words only if it occurs more often
  in the old sequence than in the new one; so no word is in both lists.
\<close>

theorem added_removed_disjoint:
  "set (findAddedWords old new) \<subseteq> {w. count_list old w < count_list new w}
   \<and> set (findRemovedWords old new) \<subseteq> {w. count_list new w < count_list old w}
   \<and> set (findAddedWords old new) \<inter> set (findRemovedWords old new) = {}"
  by (auto simp add: in_findAddedWords in_findRemovedWords)

text \<open>
  Claim C1.  The added-words pass visits each distinct word of the new sequence once, in
  the order of first appearance (\<open>findAddedWords_excess\<close>), but it does not append every
  word as often as the word occurs more in the new sequence than in the old one: the word
  \<open>constructor\<close> occurs once in the new sequence below and never in the old one, and
  nothing is appended for it.
\<close>

theorem added_words_constructor:
  "count_list [] (ascii ''constructor'') = 0
   \<and> count_list [ascii ''constructor''] (ascii ''constructor'') = 1
   \<and> findAddedWords [] [ascii ''constructor''] = []"
  by (simp add: findAddedWords_def count_words_def count_step_def set_prop_def get_prop_def
      object_prototype_def object_prototype_methods_def ascii_def js_or_def js_add_one_def
      added_step_def js_gt_def js_sub_def push_times_def native_src_def)

text \<open>
  Two sequences with the same words in the same multiplicities have no added and no
  removed words; the converse holds when no word is shadowed.
\<close>

lemma differ_empty_of_same_mset:
  assumes "mset A = mset B"
  shows "findAddedWords A B = [] \<and> findRemovedWords A B = []"
proof -
  have "count_list A w = count_list B w" for w
    using assms by (metis count_mset)
  then have "excess B A w = [] \<and> excess A B w = []" for w
    by (simp add: excess_def)
  then show ?thesis
    by (simp add: findAddedWords_excess findRemovedWords_excess)
qed

lemma same_mset_of_differ_empty:
  assumes plain: "\<And>w. w \<in> set A \<union> set B \<Longrightarrow> \<not> shadowed w"
    and "findAddedWords A B = []" and "findRemovedWords A B = []"
  shows "mset A = mset B"
proof (rule multiset_eqI)
  fix w
  show "count (mset A) w = count (mset B) w"
  proof (cases "w \<in> set A \<union> set B")
    case False
    then show ?thesis by (simp add: count_mset count_list_0_iff)
  next
    case True
    then have "\<not> shadowed w" by (rule plain)
    moreover have "w \<notin> set (findAddedWords A B)" "w \<notin> set (findRemovedWords A B)"
      using assms(2,3) by simp_all
    ultimately have "\<not> count_list A w < count_list B w" "\<not> count_list B w < count_list A w"
      by (simp_all add: in_findAddedWords in_findRemovedWords)
    then show ?thesis by (simp add: count_mset)
  qed
qed

text \<open>
  Claim C3.  The added and the removed words can both be empty for two sequences that do
  not have the same words: the empty sequence and the sequence of the one word
  \<open>toString\<close>.
\<close>

theorem differ_empty_toString:
  "findAddedWords [] [ascii ''toString''] = []
   \<and> findRemovedWords [] [ascii ''toString''] = []
   \<and> mset ([] :: jsstring list) \<noteq> mset [ascii ''toString'']"
  by (simp add: findAddedWords_def findRemovedWords_def count_words_def count_step_def
      set_prop_def get_prop_def
      object_prototype_def object_prototype_methods_def ascii_def js_or_def js_add_one_def
      added_step_def js_gt_def js_sub_def push_times_def native_src_def)

section \<open>The tokenizer\<close>

lemma runs_from_dropWhile: "runs_from [] (dropWhile is_ws s) = runs_from [] s"
  by (induction s) simp_all

lemma runs_from_snoc_ws: "is_ws c \<Longrightarrow> runs_from p (s @ [c]) = runs_from p s"
  by (induction s arbitrary: p) simp_all

lemma runs_from_append_ws:
  "\<forall>c \<in> set u. is_ws c \<Longrightarrow> runs_from p (s @ u) = runs_from p s"
proof (induction u rule: rev_induct)
  case Nil
  show ?case by simp
next
  case (snoc c u)
  then show ?case using runs_from_snoc_ws [of c p "s @ u"] by simp
qed

lemma runs_from_trim: "runs_from [] (trim s) = runs_from [] s"
proof -
  let ?t = "dropWhile is_ws s"
  have "?t = rev (dropWhile is_ws (rev ?t)) @ rev (takeWhile is_ws (rev ?t))"
    by (metis rev_append rev_rev_ident takeWhile_dropWhile_id)
  moreover have "\<forall>c \<in> set (rev (takeWhile is_ws (rev ?t))). is_ws c"
    by (auto dest: set_takeWhileD)
  ultimately have "runs_from [] (rev (dropWhile is_ws (rev ?t))) = runs_from [] ?t"
    using runs_from_append_ws by metis
  then show ?thesis by (simp add: trim_def runs_from_dropWhile)
qed

lemma filter_split_from:
  "filter (\<lambda>word. word \<noteq> []) (split_from p s) = runs_from p s"
proof (induction p s rule: split_from.induct)
  case (1 piece)
  show ?case by simp
next
  case (2 piece c cs)
  then show ?case by (simp add: runs_from_dropWhile)
qed

lemma extractWords_string: "extractWords (Some (JStr s)) = tokenize_spec s"
proof (cases "s = []")
  case True
  then show ?thesis by (simp add: extractWords_def tokenize_spec_def)
next
  case False
  then show ?thesis
    by (simp add: extractWords_def tokenize_spec_def split_ws_def filter_split_from runs_from_trim)
qed

lemma concat_runs_from: "concat (runs_from p s) = p @ filter (\<lambda>c. \<not> is_ws c) s"
  by (induction s arbitrary: p) simp_all

lemma runs_from_nonempty: "[] \<notin> set (runs_from p s)"
  by (induction s arbitrary: p) simp_all

text \<open>
  Claim C6.  On a string, \<open>extractWords\<close> returns the maximal runs of characters that are
  not white space, in order: no run is empty, and together they are the characters of the
  input that are not white space, unchanged.  On an absent input, on \<open>null\<close> and on a
  value that is not a string it returns the empty sequence.
\<close>

theorem extractWords_tokenizes:
  "extractWords (Some (JStr s)) = tokenize_spec s
   \<and> concat (extractWords (Some (JStr s))) = filter (\<lambda>c. \<not> is_ws c) s
   \<and> [] \<notin> set (extractWords (Some (JStr s)))
   \<and> extractWords None = [] \<and> extractWords (Some JNull) = []
   \<and> extractWords (Some (JBool b)) = [] \<and> extractWords (Some (JNum x)) = []
   \<and> extractWords (Some (JArr xs)) = [] \<and> extractWords (Some (JObj ps)) = []"
  by (simp add: extractWords_string tokenize_spec_def concat_runs_from runs_from_nonempty)
     (simp add: extractWords_def)

text \<open>An input with capitals, punctuation and white space at both ends.\<close>

theorem extractWords_tokenizes_witness:
  "extractWords (Some (JStr (ascii ''  Hello,   World!  ''))) = [ascii ''Hello,'', ascii ''World!'']"
  using extractWords_tokenizes [of "ascii ''  Hello,   World!  ''"]
  by (simp add: tokenize_spec_def ascii_def is_ws_def)

section \<open>Version entries\<close>

lemma js_length_or_empty: "\<exists>l. js_length (json_or x (Some (JStr []))) = Inr l"
  by (cases x rule: json_truthy.cases) (simp_all add: json_or_def)

lemma js_length_present:
  "text \<noteq> None \<Longrightarrow> text \<noteq> Some JNull \<Longrightarrow> \<exists>l. js_length text = Inr l"
  by (cases "text" rule: js_length.cases) simp_all

lemma generateVersionEntry_ok:
  assumes "js_length oldText = Inr ol" and "js_length newText = Inr nl"
  shows "generateVersionEntry uuid isoString oldText newText =
           Inr \<lparr>version_id = uuid,
                timestamp = replace_first (of_char CHR ''T'') (of_char CHR '' '') (slice_0_16 isoString),
                addedWords = findAddedWords (extractWords oldText) (extractWords newText),
                removedWords = findRemovedWords (extractWords oldText) (extractWords newText),
                oldLength = ol, newLength = nl\<rparr>"
  using assms by (simp add: generateVersionEntry_def Let_def)

lemma replace_first_at:
  "a \<notin> set pre \<Longrightarrow> replace_first a b (pre @ a # post) = pre @ b # post"
  by (induction pre) auto

text \<open>
  Claim C8.  For two strings, the version entry carries the identifier that the
  identifier source returned, the lengths of the two strings in code units, the added and
  removed words of their word sequences, and a timestamp of 16 characters: the date, a
  space, and the hours and minutes of the clock's ISO string, which has the date in its
  first ten characters, then \<open>T\<close>, then hours and minutes in five characters.
\<close>

theorem version_entry_fields:
  assumes "isoString = date @ of_char CHR ''T'' # hm @ rest"
    and "length date = 10" and "of_char CHR ''T'' \<notin> set date" and "length hm = 5"
  shows "generateVersionEntry uuid isoString (Some (JStr oldText)) (Some (JStr newText)) =
           Inr \<lparr>version_id = uuid,
                timestamp = date @ of_char CHR '' '' # hm,
                addedWords = findAddedWords (extractWords (Some (JStr oldText)))
                               (extractWords (Some (JStr newText))),
                removedWords = findRemovedWords (extractWords (Some (JStr oldText)))
                                 (extractWords (Some (JStr newText))),
                oldLength = Some (JNum (of_nat (length oldText))),
                newLength = Some (JNum (of_nat (length newText)))\<rparr>
         \<and> length (date @ of_char CHR '' '' # hm) = 16"
proof -
  have "slice_0_16 isoString = date @ of_char CHR ''T'' # hm"
    using assms(1,2,4) by (simp add: slice_0_16_def)
  then have "replace_first (of_char CHR ''T'') (of_char CHR '' '') (slice_0_16 isoString)
               = date @ of_char CHR '' '' # hm"
    using assms(3) by (simp add: replace_first_at)
  then show ?thesis
    using assms(2,4) by (simp add: generateVersionEntry_ok)
qed

text \<open>The end-to-end scenario of the specification.\<close>

theorem version_entry_fields_witness:
  "length (ascii ''2025-11-26'') = 10
   \<and> of_char CHR ''T'' \<notin> set (ascii ''2025-11-26'')
   \<and> length (ascii ''13:40'') = 5
   \<and> generateVersionEntry (ascii ''id-1'') (ascii ''2025-11-26T13:40:12.345Z'')
        (Some (JStr (ascii ''the cat sat''))) (Some (JStr (ascii ''the dog sat sat'')))
      = Inr \<lparr>version_id = ascii ''id-1'', timestamp = ascii ''2025-11-26 13:40'',
             addedWords = [ascii ''dog'', ascii ''sat''], removedWords = [ascii ''cat''],
             oldLength = Some (JNum 11), newLength = Some (JNum 15)\<rparr>"
proof -
  have h1: "ascii ''2025-11-26T13:40:12.345Z''
              = ascii ''2025-11-26'' @ of_char CHR ''T'' # ascii ''13:40'' @ ascii '':12.345Z''"
    by (simp add: ascii_def)
  have h2: "length (ascii ''2025-11-26'') = 10" by (simp add: ascii_def)
  have h3: "of_char CHR ''T'' \<notin> set (ascii ''2025-11-26'')" by (simp add: ascii_def)
  have h4: "length (ascii ''13:40'') = 5" by (simp add: ascii_def)
  have w1: "extractWords (Some (JStr (ascii ''the cat sat'')))
              = [ascii ''the'', ascii ''cat'', ascii ''sat'']"
    by (simp add: extractWords_def trim_def split_ws_def is_ws_def ascii_def)
  have w2: "extractWords (Some (JStr (ascii ''the dog sat sat'')))
              = [ascii ''the'', ascii ''dog'', ascii ''sat'', ascii ''sat'']"
    by (simp add: extractWords_def trim_def split_ws_def is_ws_def ascii_def)
  have a: "findAddedWords [ascii ''the'', ascii ''cat'', ascii ''sat'']
             [ascii ''the'', ascii ''dog'', ascii ''sat'', ascii ''sat'']
           = [ascii ''dog'', ascii ''sat'']"
    by (simp add: findAddedWords_excess excess_def shadowed_def object_prototype_def
        object_prototype_methods_def ascii_def)
  have r: "findRemovedWords [ascii ''the'', ascii ''cat'', ascii ''sat'']
             [ascii ''the'', ascii ''dog'', ascii ''sat'', ascii ''sat'']
           = [ascii ''cat'']"
    by (simp add: findRemovedWords_excess excess_def shadowed_def object_prototype_def
        object_prototype_methods_def ascii_def)
  show ?thesis
    using version_entry_fields [OF h1 h2 h3 h4, of "ascii ''id-1''" "ascii ''the cat sat''"
        "ascii ''the dog sat sat''"] h2 h3 h4
    by (simp add: w1 w2 a r) (simp add: ascii_def)
qed

section \<open>The save-version handler\<close>

lemma strict_eq_string: "strict_eq (Some (JStr t)) x = (x = Some (JStr t))"
  by (cases "(Some (JStr t), x)" rule: strict_eq.cases) auto

lemma readData_ok:
  assumes "\<not> read_error d" and "\<not> write_error d"
  shows "\<exists>dat d1. readData d = (Inr dat, d1) \<and> contents d1 = Some dat
           \<and> \<not> read_error d1 \<and> \<not> write_error d1
           \<and> versions dat = stored_records d
           \<and> json_or (currentText dat) (Some (JStr [])) = stored_snapshot d"
  using assms
  by (cases "contents d")
     (simp_all add: readData_def ensureDataFile_def stored_records_def stored_snapshot_def
        json_or_def)

lemma writeData_ok:
  assumes "contents d1 = Some dat" and "\<not> write_error d1"
  shows "writeData x d1 = (Inr (), d1\<lparr>contents := Some x\<rparr>)"
  using assms by (simp add: writeData_def ensureDataFile_def)

lemma readData_unchanged_store:
  assumes "readData d = (r, d1)"
  shows "stored_records d1 = stored_records d \<and> stored_snapshot d1 = stored_snapshot d
         \<and> read_error d1 = read_error d \<and> write_error d1 = write_error d"
  using assms
  by (cases "contents d")
     (auto simp add: readData_def ensureDataFile_def stored_records_def stored_snapshot_def
        json_or_def split: if_splits)

lemma save_version_unchanged:
  assumes "\<not> read_error d" and "\<not> write_error d"
    and "text \<noteq> None" and "text \<noteq> Some JNull"
    and "strict_eq text (stored_snapshot d)"
  shows "fst (save_version uuid isoString text d) = \<lparr>status = 200, reply = NoChanges\<rparr>
         \<and> stored_records (snd (save_version uuid isoString text d)) = stored_records d
         \<and> stored_snapshot (snd (save_version uuid isoString text d)) = stored_snapshot d
         \<and> \<not> read_error (snd (save_version uuid isoString text d))
         \<and> \<not> write_error (snd (save_version uuid isoString text d))"
proof -
  obtain dat d1 where r: "readData d = (Inr dat, d1)"
    and s: "json_or (currentText dat) (Some (JStr [])) = stored_snapshot d"
    using readData_ok [OF assms(1,2)] by blast
  have sv: "save_version uuid isoString text d = (\<lparr>status = 200, reply = NoChanges\<rparr>, d1)"
    using r s assms(3,4,5) by (simp add: save_version_def Let_def)
  show ?thesis using readData_unchanged_store [OF r] assms(1,2) by (simp add: sv)
qed

lemma save_version_changed:
  assumes "\<not> read_error d" and "\<not> write_error d"
    and "text \<noteq> None" and "text \<noteq> Some JNull"
    and "\<not> strict_eq text (stored_snapshot d)"
  shows "\<exists>v. generateVersionEntry uuid isoString (stored_snapshot d) text = Inr v
           \<and> fst (save_version uuid isoString text d) = \<lparr>status = 201, reply = Saved v\<rparr>
           \<and> stored_records (snd (save_version uuid isoString text d)) = v # stored_records d
           \<and> stored_snapshot (snd (save_version uuid isoString text d))
               = json_or text (Some (JStr []))
           \<and> \<not> read_error (snd (save_version uuid isoString text d))
           \<and> \<not> write_error (snd (save_version uuid isoString text d))"
proof -
  obtain dat d1 where r: "readData d = (Inr dat, d1)" and c: "contents d1 = Some dat"
    and e: "\<not> read_error d1" "\<not> write_error d1"
    and vs: "versions dat = stored_records d"
    and s: "json_or (currentText dat) (Some (JStr [])) = stored_snapshot d"
    using readData_ok [OF assms(1,2)] by blast
  obtain ol where ol: "js_length (stored_snapshot d) = Inr ol"
    using js_length_or_empty [of "currentText dat"] s by auto
  obtain nl where nl: "js_length text = Inr nl"
    using js_length_present [OF assms(3,4)] by blast
  obtain v where g: "generateVersionEntry uuid isoString (stored_snapshot d) text = Inr v"
    using generateVersionEntry_ok [OF ol nl] by blast
  let ?x = "dat\<lparr>versions := v # versions dat, currentText := text\<rparr>"
  have w: "writeData ?x d1 = (Inr (), d1\<lparr>contents := Some ?x\<rparr>)"
    using c e(2) by (rule writeData_ok)
  have sv: "save_version uuid isoString text d =
              (\<lparr>status = 201, reply = Saved v\<rparr>, d1\<lparr>contents := Some ?x\<rparr>)"
    using r s assms(3,4,5) g w by (simp add: save_version_def Let_def)
  show ?thesis
    using g e vs by (simp add: sv stored_records_def stored_snapshot_def)
qed


text \<open>
  Claim C2.  When reading and writing the file do not fail and the submitted text is a
  string: if the text is the stored snapshot, the answer is "no changes" and the records
  and the snapshot stay as they are; otherwise one record is put in front of the records
  and the text becomes the snapshot.  Submitting the same text again adds no record.
\<close>

theorem save_version_iff_changed:
  assumes "\<not> read_error d" and "\<not> write_error d"
  shows "\<exists>r d'. save_version uuid isoString (Some (JStr t)) d = (r, d')
           \<and> (if stored_snapshot d = Some (JStr t)
               then r = \<lparr>status = 200, reply = NoChanges\<rparr>
                    \<and> stored_records d' = stored_records d
                    \<and> stored_snapshot d' = stored_snapshot d
               else (\<exists>v. r = \<lparr>status = 201, reply = Saved v\<rparr>
                    \<and> stored_records d' = v # stored_records d)
                    \<and> stored_snapshot d' = Some (JStr t))
           \<and> fst (save_version uuid2 isoString2 (Some (JStr t)) d')
                = \<lparr>status = 200, reply = NoChanges\<rparr>
           \<and> stored_records (snd (save_version uuid2 isoString2 (Some (JStr t)) d'))
                = stored_records d'"
proof -
  obtain r d' where sv: "save_version uuid isoString (Some (JStr t)) d = (r, d')"
    by (cases "save_version uuid isoString (Some (JStr t)) d")
  have first: "(if stored_snapshot d = Some (JStr t)
               then r = \<lparr>status = 200, reply = NoChanges\<rparr>
                    \<and> stored_records d' = stored_records d
                    \<and> stored_snapshot d' = stored_snapshot d
               else (\<exists>v. r = \<lparr>status = 201, reply = Saved v\<rparr>
                    \<and> stored_records d' = v # stored_records d)
                    \<and> stored_snapshot d' = Some (JStr t))
             \<and> stored_snapshot d' = Some (JStr t) \<and> \<not> read_error d' \<and> \<not> write_error d'"
  proof (cases "stored_snapshot d = Some (JStr t)")
    case True
    then show ?thesis
      using save_version_unchanged [OF assms, of "Some (JStr t)" uuid isoString]
      by (simp add: sv strict_eq_string)
  next
    case False
    then show ?thesis
      using save_version_changed [OF assms, of "Some (JStr t)" uuid isoString]
      by (auto simp add: sv strict_eq_string json_or_def)
  qed
  then have "fst (save_version uuid2 isoString2 (Some (JStr t)) d')
                = \<lparr>status = 200, reply = NoChanges\<rparr>
           \<and> stored_records (snd (save_version uuid2 isoString2 (Some (JStr t)) d'))
                = stored_records d'"
    using save_version_unchanged [of d' "Some (JStr t)" uuid2 isoString2]
    by (simp add: strict_eq_string)
  then show ?thesis using sv first by blast
qed

text \<open>Submitting \<open>hello\<close> twice to a fresh store leaves one record.\<close>

theorem save_version_iff_changed_witness:
  "\<not> read_error \<lparr>contents = None, read_error = False, write_error = False\<rparr>
   \<and> \<not> write_error \<lparr>contents = None, read_error = False, write_error = False\<rparr>
   \<and> length (stored_records (snd (save_version (ascii ''id-2'') (ascii ''2025-11-26T13:41:00.000Z'')
        (Some (JStr (ascii ''hello'')))
        (snd (save_version (ascii ''id-1'') (ascii ''2025-11-26T13:40:12.345Z'')
           (Some (JStr (ascii ''hello'')))
           \<lparr>contents = None, read_error = False, write_error = False\<rparr>))))) = 1"
proof -
  let ?d = "\<lparr>contents = None, read_error = False, write_error = False\<rparr>"
  have h1: "\<not> read_error ?d" and h2: "\<not> write_error ?d" by simp_all
  have s: "stored_snapshot ?d \<noteq> Some (JStr (ascii ''hello''))"
    by (simp add: stored_snapshot_def ascii_def)
  have r: "stored_records ?d = []"
    by (simp add: stored_records_def)
  show ?thesis
    using save_version_iff_changed [OF h1 h2, of "ascii ''id-1''"
        "ascii ''2025-11-26T13:40:12.345Z''" "ascii ''hello''" "ascii ''id-2''"
        "ascii ''2025-11-26T13:41:00.000Z''"] s r
    by auto
qed

text \<open>
  Claim C7.  When two strings have the same word sequence but differ, and the first is the
  stored snapshot, submitting the second saves a version entry whose added and removed
  words are both empty.
\<close>

theorem whitespace_only_change:
  assumes "extractWords (Some (JStr a)) = extractWords (Some (JStr b))" and "a \<noteq> b"
    and "stored_snapshot d = Some (JStr a)" and "\<not> read_error d" and "\<not> write_error d"
  shows "\<exists>v. generateVersionEntry uuid isoString (Some (JStr a)) (Some (JStr b)) = Inr v
           \<and> addedWords v = [] \<and> removedWords v = []
           \<and> fst (save_version uuid isoString (Some (JStr b)) d) = \<lparr>status = 201, reply = Saved v\<rparr>
           \<and> stored_records (snd (save_version uuid isoString (Some (JStr b)) d)) = v # stored_records d"
proof -
  have ne: "\<not> strict_eq (Some (JStr b)) (stored_snapshot d)"
    using assms(2,3) by (simp add: strict_eq_string)
  obtain v where g: "generateVersionEntry uuid isoString (Some (JStr a)) (Some (JStr b)) = Inr v"
    and r: "fst (save_version uuid isoString (Some (JStr b)) d) = \<lparr>status = 201, reply = Saved v\<rparr>"
    and s: "stored_records (snd (save_version uuid isoString (Some (JStr b)) d)) = v # stored_records d"
    using save_version_changed [OF assms(4,5) _ _ ne, of uuid isoString] assms(3) by auto
  have "addedWords v = [] \<and> removedWords v = []"
    using g assms(1)
    by (auto simp add: generateVersionEntry_def Let_def findAddedWords_same findRemovedWords_same)
  then show ?thesis using g r s by blast
qed

text \<open>The texts \<open>hello  world\<close> (two spaces) and \<open>hello world\<close>.\<close>

theorem whitespace_only_change_witness:
  "extractWords (Some (JStr (ascii ''hello  world'')))
     = extractWords (Some (JStr (ascii ''hello world'')))
   \<and> ascii ''hello  world'' \<noteq> ascii ''hello world''
   \<and> (\<exists>v. generateVersionEntry (ascii ''id-1'') (ascii ''2025-11-26T13:40:12.345Z'')
              (Some (JStr (ascii ''hello  world''))) (Some (JStr (ascii ''hello world''))) = Inr v
          \<and> addedWords v = [] \<and> removedWords v = []
          \<and> fst (save_version (ascii ''id-1'') (ascii ''2025-11-26T13:40:12.345Z'')
                   (Some (JStr (ascii ''hello world'')))
                   \<lparr>contents = Some \<lparr>versions = [],
                                      currentText = Some (JStr (ascii ''hello  world''))\<rparr>,
                    read_error = False, write_error = False\<rparr>)
              = \<lparr>status = 201, reply = Saved v\<rparr>)"
proof -
  let ?d = "\<lparr>contents = Some \<lparr>versions = [],
                                currentText = Some (JStr (ascii ''hello  world''))\<rparr>,
             read_error = False, write_error = False\<rparr>"
  have h1: "extractWords (Some (JStr (ascii ''hello  world'')))
              = extractWords (Some (JStr (ascii ''hello world'')))"
    by (simp add: extractWords_def trim_def split_ws_def is_ws_def ascii_def)
  have h2: "ascii ''hello  world'' \<noteq> ascii ''hello world''"
    by (simp add: ascii_def)
  have h3: "stored_snapshot ?d = Some (JStr (ascii ''hello  world''))"
    by (simp add: stored_snapshot_def json_or_def ascii_def)
  have h4: "\<not> read_error ?d" and h5: "\<not> write_error ?d" by simp_all
  show ?thesis
    using whitespace_only_change [OF h1 h2 h3 h4 h5, of "ascii ''id-1''"
        "ascii ''2025-11-26T13:40:12.345Z''"] h1 h2
    by blast
qed



end
